theory Spec2Isabelle
  imports Complex_Main "HOL-Library.Sublist"
begin

section \<open>The controller object\<close>

text \<open>
  The commands bound in the table \<open>self.keywords\<close> of \<open>AnythingLLMVAD.__init__\<close>; each
  constructor stands for the bound method of the same name.
\<close>

datatype action =
    send_message | clear_chat | new_chat | scroll_up | scroll_down | cancel_input
  | delete_last_word | undo_last_action | copy_response | paste_text
  | stop_listening | start_listening

text \<open>
  The attributes of \<open>AnythingLLMVAD\<close> that the monitoring loop and the keyword path read or
  write. Python's unbounded integers are \<open>int\<close>; the clock values of \<open>time.time()\<close> are
  idealised as \<open>real\<close> (rounding of floating point is outside the model). The dictionary
  \<open>self.keywords\<close> is the association list \<open>keywords_tbl\<close>, because iteration follows
  insertion order.
\<close>

record vad_obj =
  speaking_threshold :: int
  silence_threshold :: int
  debounce_time :: real
  last_trigger_time :: real
  keywords_tbl :: "(string \<times> action) list"
  listening_mode :: bool
  last_speech_text :: string

definition AnythingLLMVAD_init :: vad_obj where
  "AnythingLLMVAD_init =
     \<lparr> speaking_threshold = 6,
       silence_threshold = 15,
       debounce_time = 1,
       last_trigger_time = 0,
       keywords_tbl =
         [(''send'', send_message),
          (''clear'', clear_chat),
          (''new chat'', new_chat),
          (''scroll up'', scroll_up),
          (''scroll down'', scroll_down),
          (''cancel'', cancel_input),
          (''delete'', delete_last_word),
          (''undo'', undo_last_action),
          (''copy'', copy_response),
          (''paste'', paste_text),
          (''stop listening'', stop_listening),
          (''start listening'', start_listening)],
       listening_mode = True,
       last_speech_text = [] \<rparr>"

section \<open>The monitoring loop\<close>

text \<open>
  The local variables of \<open>monitor_voice\<close>. A frame is an opaque block of audio of type
  \<open>'f\<close>.
\<close>

record 'f monitor_state =
  speaking_frames :: int
  silence_frames :: int
  currently_recording :: bool
  speech_frames :: "'f list"

definition monitor_init :: "'f monitor_state" where
  "monitor_init =
     \<lparr> speaking_frames = 0, silence_frames = 0, currently_recording = False,
       speech_frames = [] \<rparr>"

text \<open>
  The \<open>if is_speech: ... else: ...\<close> block of the loop body: the counters and the frame
  collection after one classified frame.
\<close>

definition count_frame :: "'f monitor_state \<Rightarrow> 'f \<Rightarrow> bool \<Rightarrow> 'f monitor_state" where
  "count_frame m frame is_speech =
     (if is_speech then
        (let m1 = m\<lparr> speaking_frames := speaking_frames m + 1,
                      silence_frames := 0,
                      speech_frames := speech_frames m @ [frame] \<rparr>
         in if speaking_frames m1 = 1 then m1\<lparr> speech_frames := [frame] \<rparr> else m1)
      else
        (let m1 = m\<lparr> silence_frames := silence_frames m + 1 \<rparr>
         in if speaking_frames m1 > 0 then m1\<lparr> speaking_frames := 0 \<rparr> else m1))"

text \<open>
  The \<open>if ... elif ...\<close> block that closes the loop body. The first component is the new
  state, the second the frame list handed to \<open>process_speech_segment\<close>, if any. The short
  silence of 5 frames is a literal of the source.
\<close>

definition check_segment :: "vad_obj \<Rightarrow> 'f monitor_state \<Rightarrow> 'f monitor_state \<times> 'f list option" where
  "check_segment a m =
     (if int (length (speech_frames m)) \<ge> speaking_threshold a \<and> silence_frames m \<ge> 5
         \<and> \<not> currently_recording m
      then (m\<lparr> currently_recording := True, speech_frames := [] \<rparr>, Some (speech_frames m))
      else if silence_frames m \<ge> silence_threshold a \<and> currently_recording m
      then (m\<lparr> currently_recording := False \<rparr>, None)
      else (m, None))"

text \<open>
  One iteration of \<open>while self.running\<close>. The frame comes with the outcome of
  \<open>self.vad.is_speech(frame, 16000)\<close>: \<open>Some b\<close> when it returns \<open>b\<close>, \<open>None\<close> when it
  raises, in which case the bare \<open>except\<close> runs \<open>continue\<close>.
\<close>

definition monitor_step ::
  "vad_obj \<Rightarrow> 'f monitor_state \<Rightarrow> 'f \<times> bool option \<Rightarrow> 'f monitor_state \<times> 'f list option" where
  "monitor_step a m x =
     (case snd x of
        None \<Rightarrow> (m, None)
      | Some is_speech \<Rightarrow> check_segment a (count_frame m (fst x) is_speech))"

text \<open>
  The loop over a finite prefix of the frame stream: the final state and the segments
  handed to \<open>process_speech_segment\<close>, in order.
\<close>

fun monitor_voice ::
  "vad_obj \<Rightarrow> 'f monitor_state \<Rightarrow> ('f \<times> bool option) list \<Rightarrow> 'f monitor_state \<times> 'f list list" where
  "monitor_voice a m [] = (m, [])"
| "monitor_voice a m (x # xs) =
     (case monitor_step a m x of
        (m', ev) \<Rightarrow>
          (case monitor_voice a m' xs of
             (m'', evs) \<Rightarrow> (m'', (case ev of None \<Rightarrow> evs | Some seg \<Rightarrow> seg # evs))))"

section \<open>The keyword path\<close>

text \<open>
  \<open>str.lower()\<close> on the transcribed text. A \<open>string\<close> is a list of bytes; the upper-case
  ASCII letters are mapped to lower case and every other byte is kept, which is what
  Python does on ASCII text (the configured phrases are ASCII).
\<close>

definition lower_char :: "char \<Rightarrow> char" where
  "lower_char c =
     (let n = (of_char c :: nat) in if 65 \<le> n \<and> n \<le> 90 then char_of (n + 32) else c)"

definition lower :: "string \<Rightarrow> string" where
  "lower text = map lower_char text"

text \<open>
  What \<open>subprocess.run(['osascript', ...], check=True)\<close> does in \<open>trigger_dictation\<close>: it
  returns, or raises \<open>CalledProcessError\<close> on a non-zero exit status.
\<close>

datatype proc_result = Completed | CalledProcessError

text \<open>
  The observable effects of the keyword path, in the order they happen: a command of the
  table was called, or the script that activates dictation was run (with its outcome).
\<close>

datatype effect = Executed action | Dictation proc_result

text \<open>
  \<open>trigger_dictation\<close>, given the value of \<open>time.time()\<close> and the outcome of the
  activation script. The early \<open>return\<close> is the first branch.
\<close>

definition trigger_dictation :: "vad_obj \<Rightarrow> real \<Rightarrow> proc_result \<Rightarrow> vad_obj \<times> effect list" where
  "trigger_dictation a current_time r =
     (if current_time - last_trigger_time a < debounce_time a then (a, [])
      else (case r of
              Completed \<Rightarrow> (a\<lparr> last_trigger_time := current_time \<rparr>, [Dictation Completed])
            | CalledProcessError \<Rightarrow> (a, [Dictation CalledProcessError])))"

text \<open>
  The two halves of \<open>trigger_dictation\<close>, for calls made by threads that overlap: the
  test of line 86 on the clock value read at line 85, and lines 89 to 107, which run the
  script (it blocks for its own delays of 0.3 seconds) and write the timestamp only
  after it has returned. A call that has returned is both halves in sequence.
\<close>

definition dictation_check :: "vad_obj \<Rightarrow> real \<Rightarrow> bool" where
  "dictation_check a current_time = (\<not> current_time - last_trigger_time a < debounce_time a)"

definition dictation_commit :: "vad_obj \<Rightarrow> real \<Rightarrow> proc_result \<Rightarrow> vad_obj \<times> effect list" where
  "dictation_commit a current_time r =
     (case r of
        Completed \<Rightarrow> (a\<lparr> last_trigger_time := current_time \<rparr>, [Dictation Completed])
      | CalledProcessError \<Rightarrow> (a, [Dictation CalledProcessError]))"

text \<open>
  The command implementations. Ten of them run a script without \<open>check=True\<close> and change
  no attribute; \<open>stop_listening\<close> and \<open>start_listening\<close> set \<open>self.listening_mode\<close>.
\<close>

fun run_action :: "action \<Rightarrow> vad_obj \<Rightarrow> vad_obj" where
  "run_action stop_listening a = a\<lparr> listening_mode := False \<rparr>"
| "run_action start_listening a = a\<lparr> listening_mode := True \<rparr>"
| "run_action _ a = a"

text \<open>
  What \<open>self.recognizer.recognize_google(audio_data)\<close> does: it returns a text or raises
  one of the two errors that \<open>listen_for_keywords\<close> catches.
\<close>

datatype recognition = Heard string | UnknownValueError | RequestError

text \<open>
  The \<open>for keyword, action in self.keywords.items()\<close> loop with its \<open>break\<close>: the first
  entry, in insertion order, whose phrase satisfies \<open>keyword in text\<close>.
\<close>

fun first_keyword :: "(string \<times> action) list \<Rightarrow> string \<Rightarrow> (string \<times> action) option" where
  "first_keyword [] text = None"
| "first_keyword ((keyword, act) # rest) text =
     (if sublist keyword text then Some (keyword, act) else first_keyword rest text)"

text \<open>
  \<open>listen_for_keywords\<close>, given the outcome of the recognizer and, for the fallback, the
  clock value and the outcome of the activation script.
\<close>

definition listen_for_keywords ::
  "vad_obj \<Rightarrow> recognition \<Rightarrow> real \<Rightarrow> proc_result \<Rightarrow> vad_obj \<times> effect list" where
  "listen_for_keywords a rec current_time r =
     (case rec of
        UnknownValueError \<Rightarrow> (a, [])
      | RequestError \<Rightarrow> (a, [])
      | Heard raw \<Rightarrow>
          (let text = lower raw; a1 = a\<lparr> last_speech_text := text \<rparr>
           in case first_keyword (keywords_tbl a1) text of
                Some (keyword, act) \<Rightarrow> (run_action act a1, [Executed act])
              | None \<Rightarrow>
                  if listening_mode a1 then trigger_dictation a1 current_time r
                  else (a1, [])))"

section \<open>The loop and its background threads together\<close>

text \<open>
  \<open>process_speech_segment\<close> starts one daemon thread per segment, running
  \<open>listen_for_keywords\<close>. The thread works on the attributes of the object only: the
  variables of \<open>monitor_voice\<close> are local to the loop and out of its reach. The system
  state pairs the object with the loop variables; \<open>in_flight\<close> (not a variable of the
  source) lists the segments whose thread has started and not yet finished.
\<close>

record 'f system =
  obj :: vad_obj
  mon :: "'f monitor_state"
  in_flight :: "'f list list"

datatype 'f event =
    Frame 'f "bool option"
  | Thread_done recognition real proc_result

definition system_init :: "'f system" where
  "system_init = \<lparr> obj = AnythingLLMVAD_init, mon = monitor_init, in_flight = [] \<rparr>"

text \<open>
  A frame runs one iteration of the loop and starts a thread for the segment it hands
  over (the thread is taken to start); the end of the oldest running thread applies
  \<open>listen_for_keywords\<close> to the object, as one step. The loop reads
  \<open>speaking_threshold\<close> and \<open>silence_threshold\<close> only, which no thread writes, so the
  interleaving inside a thread does not matter to the loop.
\<close>

fun system_step :: "'f system \<Rightarrow> 'f event \<Rightarrow> 'f system" where
  "system_step s (Frame frame c) =
     (case monitor_step (obj s) (mon s) (frame, c) of
        (m', None) \<Rightarrow> s\<lparr> mon := m' \<rparr>
      | (m', Some seg) \<Rightarrow> s\<lparr> mon := m', in_flight := in_flight s @ [seg] \<rparr>)"
| "system_step s (Thread_done rec current_time r) =
     (case in_flight s of
        [] \<Rightarrow> s
      | seg # rest \<Rightarrow>
          s\<lparr> obj := fst (listen_for_keywords (obj s) rec current_time r), in_flight := rest \<rparr>)"

definition system_run :: "'f system \<Rightarrow> 'f event list \<Rightarrow> 'f system" where
  "system_run s evs = foldl system_step s evs"

section \<open>An invariant of the loop variables\<close>

text \<open>
  Both counters are non-negative, a speaking run is never longer than the frame
  collection, and the silence counter is zero during a speaking run.
\<close>

definition monitor_inv :: "'f monitor_state \<Rightarrow> bool" where
  "monitor_inv m =
     (0 \<le> speaking_frames m \<and> 0 \<le> silence_frames m
      \<and> speaking_frames m \<le> int (length (speech_frames m))
      \<and> (if 0 < speaking_frames m then silence_frames m = 0 else True))"

section \<open>Unfolding the loop\<close>

lemma monitor_voice_Cons_fst:
  "fst (monitor_voice a m (x # xs)) = fst (monitor_voice a (fst (monitor_step a m x)) xs)"
  by (simp split: prod.splits)

lemma monitor_voice_Cons_snd:
  "snd (monitor_voice a m (x # xs)) =
     (case snd (monitor_step a m x) of None \<Rightarrow> [] | Some seg \<Rightarrow> [seg])
       @ snd (monitor_voice a (fst (monitor_step a m x)) xs)"
  by (simp split: prod.splits option.splits)

lemma monitor_voice_append_fst:
  "fst (monitor_voice a m (xs @ ys)) = fst (monitor_voice a (fst (monitor_voice a m xs)) ys)"
  by (induction xs arbitrary: m) (simp_all add: monitor_voice_Cons_fst del: monitor_voice.simps(2))

lemma monitor_voice_append_snd:
  "snd (monitor_voice a m (xs @ ys)) =
     snd (monitor_voice a m xs) @ snd (monitor_voice a (fst (monitor_voice a m xs)) ys)"
  by (induction xs arbitrary: m)
     (simp_all add: monitor_voice_Cons_fst monitor_voice_Cons_snd del: monitor_voice.simps(2))

text \<open>One iteration, by the outcome of the classifier.\<close>

lemma monitor_step_failed: "monitor_step a m (f, None) = (m, None)"
  by (simp add: monitor_step_def)

lemma monitor_step_speech:
  "monitor_step a m (f, Some True) =
     (let m1 = m\<lparr> speaking_frames := speaking_frames m + 1, silence_frames := 0,
                   speech_frames := (if speaking_frames m = 0 then [f] else speech_frames m @ [f]) \<rparr>
      in (if silence_threshold a \<le> 0 \<and> currently_recording m
          then m1\<lparr> currently_recording := False \<rparr> else m1, None))"
  by (auto simp: monitor_step_def check_segment_def count_frame_def Let_def)

lemma monitor_step_silence_buffer:
  "speech_frames (fst (monitor_step a m (f, Some False))) =
     (if snd (monitor_step a m (f, Some False)) = None then speech_frames m else [])"
  by (simp add: monitor_step_def check_segment_def count_frame_def Let_def)

lemma monitor_step_silence_segment:
  "snd (monitor_step a m (f, Some False)) = Some seg \<Longrightarrow> seg = speech_frames m"
  by (simp add: monitor_step_def check_segment_def count_frame_def Let_def split: if_splits)

lemma monitor_step_silence_counters:
  "silence_frames (fst (monitor_step a m (f, Some False))) = silence_frames m + 1"
  "speaking_frames (fst (monitor_step a m (f, Some False))) = min (speaking_frames m) 0"
  by (simp_all add: monitor_step_def check_segment_def count_frame_def Let_def)

section \<open>Frames on which the classifier raises\<close>

text \<open>
  Claim C4 says that a frame on which the classifier raises is ingested as a silence
  frame. The loop does not raise on such a frame, but it does not count it either: the
  \<open>continue\<close> skips the counters and both conditions. After six speech frames and four
  silence frames, a fifth silence frame hands the segment over, while a frame on which
  the classifier raises hands nothing over and leaves the silence counter at 4.
\<close>

theorem failed_frame_not_silence_counterexample:
  "monitor_voice AnythingLLMVAD_init monitor_init
     [(1::nat, Some True), (2, Some True), (3, Some True), (4, Some True), (5, Some True),
      (6, Some True), (7, Some False), (8, Some False), (9, Some False), (10, Some False),
      (11, None)]
   = (\<lparr> speaking_frames = 0, silence_frames = 4, currently_recording = False,
        speech_frames = [1, 2, 3, 4, 5, 6] \<rparr>, [])
   \<and> monitor_voice AnythingLLMVAD_init monitor_init
     [(1::nat, Some True), (2, Some True), (3, Some True), (4, Some True), (5, Some True),
      (6, Some True), (7, Some False), (8, Some False), (9, Some False), (10, Some False),
      (11, Some False)]
   = (\<lparr> speaking_frames = 0, silence_frames = 5, currently_recording = True,
        speech_frames = [] \<rparr>, [[1, 2, 3, 4, 5, 6]])"
  by (simp add: monitor_step_def check_segment_def count_frame_def AnythingLLMVAD_init_def
      monitor_init_def)

text \<open>
  Claim C4, amended: on a frame on which the classifier raises, the iteration does not
  raise, changes no loop variable and hands no segment over; the loop over a stream is
  the loop over the stream without those frames.
\<close>

theorem failed_frames_skipped:
  "monitor_step a m (f, None) = (m, None)
   \<and> monitor_voice a m xs = monitor_voice a m (filter (\<lambda>x. snd x \<noteq> None) xs)"
proof
  show "monitor_step a m (f, None) = (m, None)"
    by (rule monitor_step_failed)
  show "monitor_voice a m xs = monitor_voice a m (filter (\<lambda>x. snd x \<noteq> None) xs)"
    by (induction xs arbitrary: m) (auto simp: monitor_step_def split: option.splits prod.splits)
qed

section \<open>Streams without speech\<close>

lemma silent_step:
  "speech_frames m = [] \<Longrightarrow> 0 < speaking_threshold a \<Longrightarrow> c \<noteq> Some True \<Longrightarrow>
   snd (monitor_step a m (f, c)) = None \<and> speech_frames (fst (monitor_step a m (f, c))) = []"
  by (cases c) (auto simp: monitor_step_def check_segment_def count_frame_def Let_def)

lemma silent_run:
  "speech_frames m = [] \<Longrightarrow> 0 < speaking_threshold a \<Longrightarrow> \<forall>x\<in>set xs. snd x \<noteq> Some True \<Longrightarrow>
   snd (monitor_voice a m xs) = []"
proof (induction xs arbitrary: m)
  case Nil
  then show ?case by simp
next
  case (Cons x xs)
  obtain f c where x: "x = (f, c)" by (cases x)
  from Cons.prems have c: "c \<noteq> Some True" by (simp add: x)
  note st = silent_step[OF Cons.prems(1,2) c, of f]
  have "snd (monitor_voice a (fst (monitor_step a m x)) xs) = []"
    using Cons.IH[of "fst (monitor_step a m x)"] st Cons.prems by (simp add: x)
  then show ?case using st by (simp add: x monitor_voice_Cons_snd del: monitor_voice.simps(2))
qed

text \<open>
  Claim C7: from the initial loop variables and the thresholds of the constructor, a
  stream in which no frame is classified as speech (silence, or a classifier error), the
  empty stream included, hands no segment over.
\<close>

theorem all_silence_no_segment:
  "\<forall>x\<in>set xs. snd x \<noteq> Some True \<Longrightarrow>
   snd (monitor_voice AnythingLLMVAD_init monitor_init xs) = []"
  by (rule silent_run) (simp_all add: monitor_init_def AnythingLLMVAD_init_def)

theorem all_silence_no_segment_witness:
  "Some True \<notin> snd ` set (replicate 20 (0::nat, Some False) @ [(1, None)])
   \<and> snd (monitor_voice AnythingLLMVAD_init monitor_init
            (replicate 20 (0::nat, Some False) @ [(1, None)])) = []"
  using all_silence_no_segment [of "replicate 20 (0::nat, Some False) @ [(1, None)]"] by simp

section \<open>The counters and the frame collection\<close>

lemma monitor_inv_init: "monitor_inv monitor_init"
  by (simp add: monitor_inv_def monitor_init_def)

lemma monitor_inv_step: "monitor_inv m \<Longrightarrow> monitor_inv (fst (monitor_step a m x))"
  by (cases x; cases "snd x"; cases "the (snd x)")
     (auto simp: monitor_inv_def monitor_step_def check_segment_def count_frame_def Let_def
        split: if_splits)

lemma monitor_inv_run: "monitor_inv m \<Longrightarrow> monitor_inv (fst (monitor_voice a m xs))"
  by (induction xs arbitrary: m)
     (simp_all add: monitor_voice_Cons_fst monitor_inv_step del: monitor_voice.simps(2))

lemma speaking_run_extends:
  "monitor_inv m \<Longrightarrow> 0 < speaking_frames m \<Longrightarrow>
     speech_frames m \<noteq> [] \<and>
     speech_frames (fst (monitor_step a m (f, Some True))) = speech_frames m @ [f] \<and>
     snd (monitor_step a m (f, Some True)) = None"
  by (auto simp: monitor_step_speech Let_def monitor_inv_def)

text \<open>
  Claim C8: after any stream, from the initial loop variables, both counters are
  non-negative. The loop has one frame collection, \<open>speech_frames\<close>, so one segment at
  most is being accumulated; what there is to prove is that it is opened once per
  speaking run: during a speaking run (\<open>speaking_frames > 0\<close>) the collection is not empty
  and a further speech frame extends it, handing nothing over, and a new collection is
  started only by a speech frame that arrives when no speaking run is in progress.
\<close>

theorem counters_nonneg_one_open_segment:
  "0 \<le> speaking_frames (fst (monitor_voice a monitor_init xs))
   \<and> 0 \<le> silence_frames (fst (monitor_voice a monitor_init xs))
   \<and> (0 < speaking_frames (fst (monitor_voice a monitor_init xs)) \<longrightarrow>
        speech_frames (fst (monitor_voice a monitor_init xs)) \<noteq> []
        \<and> speech_frames (fst (monitor_step a (fst (monitor_voice a monitor_init xs)) (f, Some True)))
            = speech_frames (fst (monitor_voice a monitor_init xs)) @ [f]
        \<and> snd (monitor_step a (fst (monitor_voice a monitor_init xs)) (f, Some True)) = None)
   \<and> (speaking_frames (fst (monitor_voice a monitor_init xs)) = 0 \<longrightarrow>
        speech_frames (fst (monitor_step a (fst (monitor_voice a monitor_init xs)) (f, Some True)))
          = [f])"
proof -
  have inv: "monitor_inv (fst (monitor_voice a monitor_init xs))"
    by (rule monitor_inv_run[OF monitor_inv_init])
  show ?thesis
    using inv speaking_run_extends[OF inv, of a f]
    by (auto simp: monitor_inv_def monitor_step_speech Let_def)
qed

theorem counters_nonneg_one_open_segment_witness:
  "speaking_frames (fst (monitor_voice AnythingLLMVAD_init monitor_init
       [(1::nat, Some True), (2, Some True)])) = 2
   \<and> silence_frames (fst (monitor_voice AnythingLLMVAD_init monitor_init
       [(1::nat, Some True), (2, Some True)])) = 0
   \<and> speech_frames (fst (monitor_voice AnythingLLMVAD_init monitor_init
       [(1::nat, Some True), (2, Some True)])) = [1, 2]
   \<and> speech_frames (fst (monitor_step AnythingLLMVAD_init
       (fst (monitor_voice AnythingLLMVAD_init monitor_init [(1::nat, Some True), (2, Some True)]))
       (3, Some True))) = [1, 2, 3]
   \<and> speech_frames (fst (monitor_step AnythingLLMVAD_init
       (fst (monitor_voice AnythingLLMVAD_init monitor_init [(1::nat, Some True), (2, Some False)]))
       (3, Some True))) = [3]"
proof -
  have run: "fst (monitor_voice AnythingLLMVAD_init monitor_init [(1::nat, Some True), (2, Some True)])
     = \<lparr> speaking_frames = 2, silence_frames = 0, currently_recording = False,
         speech_frames = [1, 2] \<rparr>"
    by (simp add: monitor_step_def check_segment_def count_frame_def AnythingLLMVAD_init_def
      monitor_init_def)
  have run': "fst (monitor_voice AnythingLLMVAD_init monitor_init [(1::nat, Some True), (2, Some False)])
     = \<lparr> speaking_frames = 0, silence_frames = 1, currently_recording = False,
         speech_frames = [1] \<rparr>"
    by (simp add: monitor_step_def check_segment_def count_frame_def AnythingLLMVAD_init_def
      monitor_init_def)
  show ?thesis
    using counters_nonneg_one_open_segment
            [of AnythingLLMVAD_init "[(1::nat, Some True), (2, Some True)]" 3]
          counters_nonneg_one_open_segment
            [of AnythingLLMVAD_init "[(1::nat, Some True), (2, Some False)]" 3]
    unfolding run run' by simp
qed

section \<open>Which frames are collected\<close>

lemma length_6_list: "length fs = 6 \<Longrightarrow> \<exists>a b c d e f. fs = [a, b, c, d, e, f]"
  by (auto simp: length_Suc_conv eval_nat_numeral)

lemma length_5_list: "length gs = 5 \<Longrightarrow> \<exists>a b c d e. gs = [a, b, c, d, e]"
  by (auto simp: length_Suc_conv eval_nat_numeral)

lemma six_speech_five_silence:
  "length fs = 6 \<Longrightarrow> length gs = 5 \<Longrightarrow>
   monitor_voice AnythingLLMVAD_init monitor_init
      (map (\<lambda>f. (f, Some True)) fs @ map (\<lambda>g. (g, Some False)) gs)
   = (\<lparr> speaking_frames = 0, silence_frames = 5, currently_recording = True,
        speech_frames = [] \<rparr>, [fs])"
proof -
  assume "length fs = 6" "length gs = 5"
  then obtain a b c d e f a' b' c' d' e' where
    "fs = [a, b, c, d, e, f]" "gs = [a', b', c', d', e']"
    using length_6_list length_5_list by metis
  then show ?thesis
    by (simp add: monitor_step_def check_segment_def count_frame_def AnythingLLMVAD_init_def
      monitor_init_def)
qed

text \<open>
  Claim C2 says that silence frames are appended to the collection too, so that six
  speech frames and five silence frames hand over an 11-frame segment. The loop appends
  speech frames only: the segment handed over on the fifth silence frame holds the six
  speech frames.
\<close>

theorem eleven_frame_segment_counterexample:
  "snd (monitor_voice AnythingLLMVAD_init monitor_init
     [(1::nat, Some True), (2, Some True), (3, Some True), (4, Some True), (5, Some True),
      (6, Some True), (7, Some False), (8, Some False), (9, Some False), (10, Some False),
      (11, Some False)]) = [[1, 2, 3, 4, 5, 6]]
   \<and> length (hd (snd (monitor_voice AnythingLLMVAD_init monitor_init
     [(1::nat, Some True), (2, Some True), (3, Some True), (4, Some True), (5, Some True),
      (6, Some True), (7, Some False), (8, Some False), (9, Some False), (10, Some False),
      (11, Some False)]))) \<noteq> 11"
  by (simp add: monitor_step_def check_segment_def count_frame_def AnythingLLMVAD_init_def
      monitor_init_def)

text \<open>
  Claim C2, amended: a speech frame is appended to the collection (or starts it, when no
  speaking run is in progress) and hands nothing over; a silence frame is never
  appended: it leaves the collection as it is, or hands it over as it is and empties it.
  From the initial loop variables and the constructor's thresholds, six speech frames
  followed by five silence frames hand over exactly one segment, the six speech frames.
\<close>

theorem only_speech_frames_collected:
  "speech_frames (fst (monitor_step a m (f, Some True)))
     = (if speaking_frames m = 0 then [f] else speech_frames m @ [f])
   \<and> snd (monitor_step a m (f, Some True)) = None
   \<and> speech_frames (fst (monitor_step a m (g, Some False)))
     = (if snd (monitor_step a m (g, Some False)) = None then speech_frames m else [])
   \<and> snd (monitor_step a m (g, Some False)) \<in> {None, Some (speech_frames m)}
   \<and> (length fs = 6 \<and> length gs = 5 \<longrightarrow>
        monitor_voice AnythingLLMVAD_init monitor_init
          (map (\<lambda>f. (f, Some True)) fs @ map (\<lambda>g. (g, Some False)) gs)
        = (\<lparr> speaking_frames = 0, silence_frames = 5, currently_recording = True,
             speech_frames = [] \<rparr>, [fs]))"
proof -
  have "snd (monitor_step a m (g, Some False)) \<in> {None, Some (speech_frames m)}"
    using monitor_step_silence_segment[of a m g] by (cases "snd (monitor_step a m (g, Some False))") auto
  then show ?thesis
    using six_speech_five_silence[of fs gs]
    by (simp add: monitor_step_speech Let_def monitor_step_silence_buffer)
qed

theorem only_speech_frames_collected_witness:
  "monitor_voice AnythingLLMVAD_init monitor_init
     (map (\<lambda>f. (f, Some True)) [''a'', ''b'', ''c'', ''d'', ''e'', ''f'']
      @ map (\<lambda>g. (g, Some False)) [''g'', ''h'', ''i'', ''j'', ''k''])
   = (\<lparr> speaking_frames = 0, silence_frames = 5, currently_recording = True,
        speech_frames = [] \<rparr>, [[''a'', ''b'', ''c'', ''d'', ''e'', ''f'']])"
  using only_speech_frames_collected
    [of AnythingLLMVAD_init monitor_init "''a''" "''g''"
        "[''a'', ''b'', ''c'', ''d'', ''e'', ''f'']" "[''g'', ''h'', ''i'', ''j'', ''k'']"]
  by simp

section \<open>Silence inside an utterance\<close>

lemma silence_run_speaking:
  "speaking_frames (fst (monitor_voice a m (map (\<lambda>g. (g, Some False)) gs))) =
     (if gs = [] then speaking_frames m else min (speaking_frames m) 0)"
  by (induction gs arbitrary: m)
     (simp_all add: monitor_voice_Cons_fst monitor_step_silence_counters
        del: monitor_voice.simps(2))

lemma silence_run_buffer:
  "snd (monitor_voice a m (map (\<lambda>g. (g, Some False)) gs)) = [] \<Longrightarrow>
   speech_frames (fst (monitor_voice a m (map (\<lambda>g. (g, Some False)) gs))) = speech_frames m"
proof (induction gs arbitrary: m)
  case Nil
  then show ?case by simp
next
  case (Cons g gs)
  from Cons.prems have none: "snd (monitor_step a m (g, Some False)) = None"
    and rest: "snd (monitor_voice a (fst (monitor_step a m (g, Some False)))
                 (map (\<lambda>g. (g, Some False)) gs)) = []"
    by (auto simp: monitor_voice_Cons_snd simp del: monitor_voice.simps(2) split: option.splits)
  have "speech_frames (fst (monitor_step a m (g, Some False))) = speech_frames m"
    using none by (simp add: monitor_step_silence_buffer)
  then show ?case
    using Cons.IH[OF rest] by (simp add: monitor_voice_Cons_fst del: monitor_voice.simps(2))
qed

lemma resume_starts_over:
  "0 \<le> speaking_frames m \<Longrightarrow> gs \<noteq> [] \<Longrightarrow>
   speech_frames (fst (monitor_voice a m (map (\<lambda>g. (g, Some False)) gs @ [(f, Some True)])))
     = [f]"
  by (simp add: monitor_voice_append_fst monitor_voice_Cons_fst silence_run_speaking
      monitor_step_speech Let_def del: monitor_voice.simps(2))

text \<open>
  Claim C3 says that the frames collected before a silence run are still in the
  collection after speech resumes. They are kept during the silence run, but the first
  speech frame after it is the first frame of a new speaking run, and the loop resets
  the collection to that frame alone: after two speech frames, one silence frame and one
  more speech frame, the collection holds the last frame only and nothing was handed
  over.
\<close>

theorem buffer_kept_after_silence_counterexample:
  "monitor_voice AnythingLLMVAD_init monitor_init
     [(1::nat, Some True), (2, Some True), (3, Some False), (4, Some True)]
   = (\<lparr> speaking_frames = 1, silence_frames = 0, currently_recording = False,
        speech_frames = [4] \<rparr>, [])
   \<and> 1 \<notin> set (speech_frames (fst (monitor_voice AnythingLLMVAD_init monitor_init
        [(1::nat, Some True), (2, Some True), (3, Some False), (4, Some True)])))"
  by (simp add: monitor_step_def check_segment_def count_frame_def AnythingLLMVAD_init_def
      monitor_init_def)

text \<open>
  Claim C3, amended: in a state reached from the initial loop variables, a run of silence
  frames on which no segment is handed over leaves the collection unchanged, and a
  non-empty run sets \<open>speaking_frames\<close> to 0; the first speech frame after such a run
  then starts a new collection that holds this frame alone, so the frames collected
  before the silence run are dropped when speech resumes.
\<close>

theorem silence_keeps_buffer_resume_resets:
  "(snd (monitor_voice a (fst (monitor_voice a monitor_init pre))
          (map (\<lambda>g. (g, Some False)) gs)) = [] \<longrightarrow>
      speech_frames (fst (monitor_voice a (fst (monitor_voice a monitor_init pre))
          (map (\<lambda>g. (g, Some False)) gs)))
        = speech_frames (fst (monitor_voice a monitor_init pre)))
   \<and> (gs \<noteq> [] \<longrightarrow>
        speaking_frames (fst (monitor_voice a (fst (monitor_voice a monitor_init pre))
          (map (\<lambda>g. (g, Some False)) gs))) = 0
        \<and> speech_frames (fst (monitor_voice a (fst (monitor_voice a monitor_init pre))
             (map (\<lambda>g. (g, Some False)) gs @ [(f, Some True)]))) = [f])"
proof -
  have "monitor_inv (fst (monitor_voice a monitor_init pre))"
    by (rule monitor_inv_run[OF monitor_inv_init])
  then have nn: "0 \<le> speaking_frames (fst (monitor_voice a monitor_init pre))"
    by (simp add: monitor_inv_def)
  show ?thesis
    using nn silence_run_buffer[of a "fst (monitor_voice a monitor_init pre)" gs]
      resume_starts_over[OF nn, of gs a f]
    by (simp add: silence_run_speaking)
qed

theorem silence_keeps_buffer_resume_resets_witness:
  "speech_frames (fst (monitor_voice AnythingLLMVAD_init
      (fst (monitor_voice AnythingLLMVAD_init monitor_init
         [(1::nat, Some True), (2, Some True), (3, Some True)]))
      (map (\<lambda>g. (g, Some False)) [4, 5]))) = [1, 2, 3]
   \<and> speech_frames (fst (monitor_voice AnythingLLMVAD_init
      (fst (monitor_voice AnythingLLMVAD_init monitor_init
         [(1::nat, Some True), (2, Some True), (3, Some True)]))
      (map (\<lambda>g. (g, Some False)) [4, 5] @ [(6, Some True)]))) = [6]"
proof -
  have "snd (monitor_voice AnythingLLMVAD_init
      (fst (monitor_voice AnythingLLMVAD_init monitor_init
         [(1::nat, Some True), (2, Some True), (3, Some True)]))
      (map (\<lambda>g. (g, Some False)) [4, 5])) = []"
    by (simp add: monitor_step_def check_segment_def count_frame_def AnythingLLMVAD_init_def
      monitor_init_def)
  moreover have "[4, 5::nat] \<noteq> []" by simp
  ultimately show ?thesis
    using silence_keeps_buffer_resume_resets[of AnythingLLMVAD_init
        "[(1::nat, Some True), (2, Some True), (3, Some True)]" "[4, 5]" 6]
    by (simp add: monitor_step_def check_segment_def count_frame_def AnythingLLMVAD_init_def
      monitor_init_def)
qed

section \<open>Resolving a transcribed text\<close>

lemma first_keyword_None:
  "first_keyword tbl tx = None \<longleftrightarrow> (\<forall>p\<in>set tbl. \<not> sublist (fst p) tx)"
  by (induction tbl tx rule: first_keyword.induct) auto

lemma first_keyword_priority:
  "\<forall>p\<in>set pre. \<not> sublist (fst p) tx \<Longrightarrow> sublist k tx \<Longrightarrow>
   first_keyword (pre @ (k, act) # post) tx = Some (k, act)"
  by (induction pre) (auto split: if_splits)

lemma listen_keyword:
  "first_keyword (keywords_tbl a) (lower raw) = Some (k, act) \<Longrightarrow>
   listen_for_keywords a (Heard raw) t r
     = (run_action act (a\<lparr>last_speech_text := lower raw\<rparr>), [Executed act])"
  by (simp add: listen_for_keywords_def Let_def)

lemma listen_fallback:
  "first_keyword (keywords_tbl a) (lower raw) = None \<Longrightarrow>
   listen_for_keywords a (Heard raw) t r =
     (if listening_mode a then trigger_dictation (a\<lparr>last_speech_text := lower raw\<rparr>) t r
      else (a\<lparr>last_speech_text := lower raw\<rparr>, []))"
  by (simp add: listen_for_keywords_def Let_def)

lemma run_action_fields:
  "keywords_tbl (run_action act a) = keywords_tbl a"
  "last_trigger_time (run_action act a) = last_trigger_time a"
  "debounce_time (run_action act a) = debounce_time a"
  by (cases act; simp)+

lemma trigger_dictation_fields:
  "keywords_tbl (fst (trigger_dictation a t r)) = keywords_tbl a"
  "listening_mode (fst (trigger_dictation a t r)) = listening_mode a"
  "debounce_time (fst (trigger_dictation a t r)) = debounce_time a"
  by (cases r; simp add: trigger_dictation_def)+

lemma listen_keeps_table: "keywords_tbl (fst (listen_for_keywords a rc t r)) = keywords_tbl a"
  by (cases rc)
     (auto simp: listen_for_keywords_def Let_def run_action_fields trigger_dictation_fields
        split: option.splits)

text \<open>Some texts, lower-cased and looked up in the table of the constructor.\<close>

lemma lower_clear_and_send: "lower ''Clear and SEND'' = ''clear and send''"
  by code_simp

lemma lower_hello: "lower ''Hello there'' = ''hello there''"
  by code_simp

lemma lower_stop: "lower ''stop listening'' = ''stop listening''"
  by code_simp

lemma lower_start: "lower ''start listening'' = ''start listening''"
  by code_simp

lemma lower_send: "lower ''please send this'' = ''please send this''"
  by code_simp

lemma init_stop:
  "first_keyword (keywords_tbl AnythingLLMVAD_init) ''stop listening''
     = Some (''stop listening'', stop_listening)"
  by (simp add: AnythingLLMVAD_init_def sublist_code(3))

lemma init_start:
  "first_keyword (keywords_tbl AnythingLLMVAD_init) ''start listening''
     = Some (''start listening'', start_listening)"
  by (simp add: AnythingLLMVAD_init_def sublist_code(3))

lemma init_hello: "first_keyword (keywords_tbl AnythingLLMVAD_init) ''hello there'' = None"
  by (simp add: AnythingLLMVAD_init_def sublist_code(3))

lemma init_send:
  "first_keyword (keywords_tbl AnythingLLMVAD_init) ''please send this''
     = Some (''send'', send_message)"
  by (simp add: AnythingLLMVAD_init_def sublist_code(3))

text \<open>
  Claim C5 says that a text in which no phrase occurs always selects the fallback. The
  fallback is guarded by \<open>self.listening_mode\<close>: once the command \<open>stop listening\<close> has
  turned listening mode off, a text without any phrase of the table selects nothing.
\<close>

theorem fallback_always_counterexample:
  "listen_for_keywords
     (fst (listen_for_keywords AnythingLLMVAD_init (Heard ''stop listening'') 50 Completed))
     (Heard ''Hello there'') 100 Completed
   = (AnythingLLMVAD_init\<lparr>listening_mode := False, last_speech_text := ''hello there''\<rparr>, [])
   \<and> first_keyword (keywords_tbl AnythingLLMVAD_init) (lower ''Hello there'') = None"
proof -
  have off: "fst (listen_for_keywords AnythingLLMVAD_init (Heard ''stop listening'') 50 Completed)
     = AnythingLLMVAD_init\<lparr>last_speech_text := ''stop listening'', listening_mode := False\<rparr>"
    by (simp add: listen_for_keywords_def Let_def lower_stop init_stop)
  have miss: "first_keyword (keywords_tbl AnythingLLMVAD_init) (lower ''Hello there'') = None"
    by (simp only: lower_hello init_hello)
  show ?thesis
    unfolding off using miss by (simp add: listen_fallback lower_hello)
qed

text \<open>
  Claim C5, amended: the text is lower-cased and the table is scanned in insertion order.
  The command of the first phrase of the table that is a substring of the text is
  called, and nothing else is: phrases later in the table do not matter, wherever they
  stand in the text. When no phrase of the table is a substring of the text, the
  fallback \<open>trigger_dictation\<close> is called if listening mode is on, and nothing is
  called if it is off.
\<close>

theorem first_table_phrase_wins:
  "(keywords_tbl a = pre @ (k, act) # post \<and> (\<forall>p\<in>set pre. \<not> sublist (fst p) (lower raw))
      \<and> sublist k (lower raw) \<longrightarrow>
      listen_for_keywords a (Heard raw) t r
        = (run_action act (a\<lparr>last_speech_text := lower raw\<rparr>), [Executed act]))
   \<and> ((\<forall>p\<in>set (keywords_tbl a). \<not> sublist (fst p) (lower raw)) \<longrightarrow>
      listen_for_keywords a (Heard raw) t r =
        (if listening_mode a then trigger_dictation (a\<lparr>last_speech_text := lower raw\<rparr>) t r
         else (a\<lparr>last_speech_text := lower raw\<rparr>, [])))"
proof (intro conjI impI)
  assume "keywords_tbl a = pre @ (k, act) # post \<and> (\<forall>p\<in>set pre. \<not> sublist (fst p) (lower raw))
      \<and> sublist k (lower raw)"
  then have "first_keyword (keywords_tbl a) (lower raw) = Some (k, act)"
    by (simp add: first_keyword_priority)
  then show "listen_for_keywords a (Heard raw) t r
        = (run_action act (a\<lparr>last_speech_text := lower raw\<rparr>), [Executed act])"
    by (rule listen_keyword)
next
  assume "\<forall>p\<in>set (keywords_tbl a). \<not> sublist (fst p) (lower raw)"
  then have "first_keyword (keywords_tbl a) (lower raw) = None"
    by (simp add: first_keyword_None)
  then show "listen_for_keywords a (Heard raw) t r =
        (if listening_mode a then trigger_dictation (a\<lparr>last_speech_text := lower raw\<rparr>) t r
         else (a\<lparr>last_speech_text := lower raw\<rparr>, []))"
    by (rule listen_fallback)
qed

theorem first_table_phrase_wins_witness:
  "listen_for_keywords AnythingLLMVAD_init (Heard ''Clear and SEND'') 100 Completed
     = (AnythingLLMVAD_init\<lparr>last_speech_text := ''clear and send''\<rparr>, [Executed send_message])
   \<and> listen_for_keywords AnythingLLMVAD_init (Heard ''Hello there'') 100 Completed
     = (AnythingLLMVAD_init\<lparr>last_speech_text := ''hello there'', last_trigger_time := 100\<rparr>,
        [Dictation Completed])"
proof -
  have tbl: "keywords_tbl AnythingLLMVAD_init
      = [] @ (''send'', send_message) # tl (keywords_tbl AnythingLLMVAD_init)"
    by (simp add: AnythingLLMVAD_init_def)
  have hit: "(\<forall>p\<in>set []. \<not> sublist (fst p) (lower ''Clear and SEND''))
      \<and> sublist ''send'' (lower ''Clear and SEND'')"
    by (simp add: lower_clear_and_send sublist_code(3))
  have miss: "\<forall>p\<in>set (keywords_tbl AnythingLLMVAD_init). \<not> sublist (fst p) (lower ''Hello there'')"
    using init_hello by (simp only: first_keyword_None lower_hello)
  have lm: "listening_mode AnythingLLMVAD_init"
    by (simp add: AnythingLLMVAD_init_def)
  have a: "listen_for_keywords AnythingLLMVAD_init (Heard ''Clear and SEND'') 100 Completed
     = (run_action send_message (AnythingLLMVAD_init\<lparr>last_speech_text := lower ''Clear and SEND''\<rparr>),
        [Executed send_message])"
    using first_table_phrase_wins[of AnythingLLMVAD_init "[]" "''send''" send_message
            "tl (keywords_tbl AnythingLLMVAD_init)" "''Clear and SEND''" 100 Completed]
          tbl hit by blast
  have b: "listen_for_keywords AnythingLLMVAD_init (Heard ''Hello there'') 100 Completed
     = trigger_dictation (AnythingLLMVAD_init\<lparr>last_speech_text := lower ''Hello there''\<rparr>) 100 Completed"
    using first_table_phrase_wins[of AnythingLLMVAD_init "[]" "''send''" send_message
            "tl (keywords_tbl AnythingLLMVAD_init)" "''Hello there''" 100 Completed]
          miss lm by simp
  show ?thesis
    unfolding a b
    by (simp add: lower_clear_and_send lower_hello trigger_dictation_def)
       (simp add: AnythingLLMVAD_init_def)
qed

section \<open>A failed activation of dictation\<close>

text \<open>
  Claim C10: when the activation script raises \<open>CalledProcessError\<close>,
  \<open>trigger_dictation\<close> leaves the object, \<open>last_trigger_time\<close> included, as it was; a
  later call behaves as if the failed one had not happened, and a retry at any later
  time, also within the debounce interval after the failure, runs the script again.
\<close>

theorem failed_dictation_keeps_clock:
  "fst (trigger_dictation a t CalledProcessError) = a
   \<and> trigger_dictation (fst (trigger_dictation a t CalledProcessError)) t' r
       = trigger_dictation a t' r
   \<and> (debounce_time a \<le> t - last_trigger_time a \<and> t \<le> t' \<longrightarrow>
        snd (trigger_dictation a t CalledProcessError) = [Dictation CalledProcessError]
        \<and> snd (trigger_dictation (fst (trigger_dictation a t CalledProcessError)) t' r)
            = [Dictation r])"
  by (cases r) (auto simp: trigger_dictation_def)

theorem failed_dictation_keeps_clock_witness:
  "trigger_dictation AnythingLLMVAD_init 100 CalledProcessError
     = (AnythingLLMVAD_init, [Dictation CalledProcessError])
   \<and> trigger_dictation (fst (trigger_dictation AnythingLLMVAD_init 100 CalledProcessError))
        (1003 / 10) Completed
      = (AnythingLLMVAD_init\<lparr>last_trigger_time := 1003 / 10\<rparr>, [Dictation Completed])"
  using failed_dictation_keeps_clock[of AnythingLLMVAD_init 100 "1003 / 10" Completed]
  by (simp add: trigger_dictation_def AnythingLLMVAD_init_def)

section \<open>Debouncing the fallback\<close>

text \<open>
  Claim C6 says that of two fallback resolutions less than the debounce interval apart
  only the first fires, the second being suppressed without an update of
  \<open>last_trigger_time\<close>. The timestamp is set only when the activation script succeeds:
  when the script of the first resolution fails, the second one, 0.3 seconds later,
  fires as well and sets the timestamp.
\<close>

theorem debounce_second_suppressed_counterexample:
  "listen_for_keywords
     (fst (listen_for_keywords AnythingLLMVAD_init (Heard ''Hello there'') 100 CalledProcessError))
     (Heard ''Hello there'') (1003 / 10) Completed
   = (AnythingLLMVAD_init\<lparr>last_speech_text := ''hello there'', last_trigger_time := 1003 / 10\<rparr>,
      [Dictation Completed])
   \<and> snd (listen_for_keywords AnythingLLMVAD_init (Heard ''Hello there'') 100 CalledProcessError)
      = [Dictation CalledProcessError]"
proof -
  have lm: "listening_mode AnythingLLMVAD_init"
    by (simp add: AnythingLLMVAD_init_def)
  have first: "listen_for_keywords AnythingLLMVAD_init (Heard ''Hello there'') 100 CalledProcessError
     = (AnythingLLMVAD_init\<lparr>last_speech_text := ''hello there''\<rparr>, [Dictation CalledProcessError])"
    using lm by (simp add: listen_fallback lower_hello init_hello trigger_dictation_def)
       (simp add: AnythingLLMVAD_init_def)
  have tbl: "keywords_tbl (AnythingLLMVAD_init\<lparr>last_speech_text := ''hello there''\<rparr>)
     = keywords_tbl AnythingLLMVAD_init"
    by simp
  have second: "listen_for_keywords (AnythingLLMVAD_init\<lparr>last_speech_text := ''hello there''\<rparr>)
      (Heard ''Hello there'') (1003 / 10) Completed
    = (AnythingLLMVAD_init\<lparr>last_speech_text := ''hello there'', last_trigger_time := 1003 / 10\<rparr>,
      [Dictation Completed])"
    using lm by (simp add: listen_fallback lower_hello init_hello trigger_dictation_def tbl)
       (simp add: AnythingLLMVAD_init_def)
  show ?thesis unfolding first using second by simp
qed

text \<open>
  The theorem below is about calls in sequence. It does not extend to calls that
  overlap: on the initial object the tests of two calls at 100 and 100.1 both pass when
  the second is made before the first has written the timestamp, while after the first
  has returned the second test fails.
\<close>

lemma trigger_dictation_split:
  "trigger_dictation a t r = (if dictation_check a t then dictation_commit a t r else (a, []))"
  by (simp add: trigger_dictation_def dictation_check_def dictation_commit_def)

lemma overlapping_checks_both_pass:
  "dictation_check AnythingLLMVAD_init 100
   \<and> dictation_check AnythingLLMVAD_init (1001 / 10)
   \<and> \<not> dictation_check (fst (dictation_commit AnythingLLMVAD_init 100 Completed)) (1001 / 10)"
  by (simp add: dictation_check_def dictation_commit_def AnythingLLMVAD_init_def)

text \<open>
  Claim C6, amended: take two fallback resolutions (listening mode on, no phrase of the
  table in either text) at times \<open>t1 < t2\<close>, where the first call has returned before
  the second reads the clock and the first is not debounced itself. The first fires.
  If its activation script succeeded and \<open>t2 - t1\<close> is less than the debounce interval,
  the second is suppressed and \<open>last_trigger_time\<close> stays \<open>t1\<close>; if its activation
  script failed, the timestamp was not set and the second fires too; if \<open>t2 - t1\<close> is at
  least the debounce interval, the second fires in either case. A text that holds a
  phrase of the table has its command called at any time, whatever the timestamp.
\<close>

theorem debounce_of_sequential_fallbacks:
  assumes "listening_mode a"
    and "first_keyword (keywords_tbl a) (lower raw1) = None"
    and "first_keyword (keywords_tbl a) (lower raw2) = None"
    and "debounce_time a \<le> t1 - last_trigger_time a"
    and "t1 < t2"
  shows "snd (listen_for_keywords a (Heard raw1) t1 r1) = [Dictation r1]
    \<and> (r1 = Completed \<and> t2 - t1 < debounce_time a \<longrightarrow>
         snd (listen_for_keywords (fst (listen_for_keywords a (Heard raw1) t1 r1)) (Heard raw2) t2 r2) = []
         \<and> last_trigger_time (fst (listen_for_keywords (fst (listen_for_keywords a (Heard raw1) t1 r1))
              (Heard raw2) t2 r2)) = t1)
    \<and> (r1 = CalledProcessError \<longrightarrow>
         snd (listen_for_keywords (fst (listen_for_keywords a (Heard raw1) t1 r1)) (Heard raw2) t2 r2)
           = [Dictation r2])
    \<and> (debounce_time a \<le> t2 - t1 \<longrightarrow>
         snd (listen_for_keywords (fst (listen_for_keywords a (Heard raw1) t1 r1)) (Heard raw2) t2 r2)
           = [Dictation r2])
    \<and> (first_keyword (keywords_tbl a) (lower raw) = Some (k, act) \<longrightarrow>
         snd (listen_for_keywords (fst (listen_for_keywords a (Heard raw1) t1 r1)) (Heard raw) t r)
           = [Executed act])"
proof -
  define a1 where "a1 = fst (listen_for_keywords a (Heard raw1) t1 r1)"
  have first: "listen_for_keywords a (Heard raw1) t1 r1
      = trigger_dictation (a\<lparr>last_speech_text := lower raw1\<rparr>) t1 r1"
    using assms(1,2) by (simp add: listen_fallback)
  have nodb: "\<not> t1 - last_trigger_time (a\<lparr>last_speech_text := lower raw1\<rparr>)
       < debounce_time (a\<lparr>last_speech_text := lower raw1\<rparr>)"
    using assms(4) by simp
  have c1: "snd (listen_for_keywords a (Heard raw1) t1 r1) = [Dictation r1]"
    unfolding first using nodb by (cases r1) (simp_all add: trigger_dictation_def)
  have tbl: "keywords_tbl a1 = keywords_tbl a"
    unfolding a1_def by (rule listen_keeps_table)
  have lm: "listening_mode a1"
    unfolding a1_def first using assms(1) by (simp add: trigger_dictation_fields)
  have db: "debounce_time a1 = debounce_time a"
    unfolding a1_def first by (simp add: trigger_dictation_fields)
  have last: "last_trigger_time a1 = (if r1 = Completed then t1 else last_trigger_time a)"
    unfolding a1_def first using nodb by (cases r1) (simp_all add: trigger_dictation_def)
  have second: "listen_for_keywords a1 (Heard raw2) t2 r2
      = trigger_dictation (a1\<lparr>last_speech_text := lower raw2\<rparr>) t2 r2"
    using assms(3) tbl lm by (simp add: listen_fallback)
  have c2: "r1 = Completed \<and> t2 - t1 < debounce_time a \<longrightarrow>
         snd (listen_for_keywords a1 (Heard raw2) t2 r2) = []
         \<and> last_trigger_time (fst (listen_for_keywords a1 (Heard raw2) t2 r2)) = t1"
    unfolding second by (simp add: trigger_dictation_def db last)
  have "\<not> t2 - last_trigger_time a1 < debounce_time a" if "r1 = CalledProcessError"
    using that assms(4,5) by (simp add: last)
  then have c5: "r1 = CalledProcessError \<longrightarrow>
         snd (listen_for_keywords a1 (Heard raw2) t2 r2) = [Dictation r2]"
    unfolding second by (cases r2) (simp_all add: trigger_dictation_def db)
  have "\<not> t2 - last_trigger_time a1 < debounce_time a" if "debounce_time a \<le> t2 - t1"
    using that assms(4,5) by (simp add: last)
  then have c3: "debounce_time a \<le> t2 - t1 \<longrightarrow>
         snd (listen_for_keywords a1 (Heard raw2) t2 r2) = [Dictation r2]"
    unfolding second by (cases r2) (simp_all add: trigger_dictation_def db)
  have c4: "first_keyword (keywords_tbl a) (lower raw) = Some (k, act) \<longrightarrow>
         snd (listen_for_keywords a1 (Heard raw) t r) = [Executed act]"
    using tbl by (simp add: listen_keyword)
  show ?thesis using c1 c2 c3 c4 c5 unfolding a1_def by blast
qed

theorem debounce_of_sequential_fallbacks_witness:
  "snd (listen_for_keywords AnythingLLMVAD_init (Heard ''Hello there'') 100 Completed)
     = [Dictation Completed]
   \<and> snd (listen_for_keywords
        (fst (listen_for_keywords AnythingLLMVAD_init (Heard ''Hello there'') 100 Completed))
        (Heard ''Hello there'') (1005 / 10) Completed) = []
   \<and> snd (listen_for_keywords
        (fst (listen_for_keywords AnythingLLMVAD_init (Heard ''Hello there'') 100 CalledProcessError))
        (Heard ''Hello there'') (1005 / 10) Completed) = [Dictation Completed]
   \<and> snd (listen_for_keywords
        (fst (listen_for_keywords AnythingLLMVAD_init (Heard ''Hello there'') 100 Completed))
        (Heard ''Hello there'') (1012 / 10) Completed) = [Dictation Completed]
   \<and> snd (listen_for_keywords
        (fst (listen_for_keywords AnythingLLMVAD_init (Heard ''Hello there'') 100 Completed))
        (Heard ''please send this'') (1005 / 10) Completed) = [Executed send_message]"
proof -
  have lm: "listening_mode AnythingLLMVAD_init"
    by (simp add: AnythingLLMVAD_init_def)
  have db: "debounce_time AnythingLLMVAD_init = 1"
    by (simp add: AnythingLLMVAD_init_def)
  have miss: "first_keyword (keywords_tbl AnythingLLMVAD_init) (lower ''Hello there'') = None"
    by (simp only: lower_hello init_hello)
  have hit: "first_keyword (keywords_tbl AnythingLLMVAD_init) (lower ''please send this'')
      = Some (''send'', send_message)"
    by (simp only: lower_send init_send)
  have fresh: "debounce_time AnythingLLMVAD_init \<le> 100 - last_trigger_time AnythingLLMVAD_init"
    by (simp add: AnythingLLMVAD_init_def)
  have near: "(100::real) < 1005 / 10" and far: "(100::real) < 1012 / 10"
    by simp_all
  note soon = debounce_of_sequential_fallbacks[OF lm miss miss fresh near,
      where ?r1.0 = Completed and ?r2.0 = Completed and raw = "''please send this''"
        and k = "''send''" and act = send_message and t = "1005 / 10" and r = Completed]
  note retry = debounce_of_sequential_fallbacks[OF lm miss miss fresh near,
      where ?r1.0 = CalledProcessError and ?r2.0 = Completed and raw = "''please send this''"
        and k = "''send''" and act = send_message and t = "1005 / 10" and r = Completed]
  note late = debounce_of_sequential_fallbacks[OF lm miss miss fresh far,
      where ?r1.0 = Completed and ?r2.0 = Completed and raw = "''please send this''"
        and k = "''send''" and act = send_message and t = "1005 / 10" and r = Completed]
  show ?thesis
    using soon retry late hit by (simp add: db)
qed

section \<open>Listening mode\<close>

text \<open>
  Claim C9: take an object with the table of the constructor and let the command
  \<open>stop listening\<close> turn listening mode off. In the resulting state a text that holds a
  phrase of the table still has its command called (the branch does not read
  \<open>listening_mode\<close>), the text \<open>start listening\<close> turns listening mode on again, and a
  text without any phrase of the table calls nothing: no fallback dictation.
\<close>

theorem keywords_not_gated_by_listening_mode:
  assumes "keywords_tbl a = keywords_tbl AnythingLLMVAD_init"
  shows "listening_mode (fst (listen_for_keywords a (Heard ''stop listening'') t0 r0)) = False
    \<and> (first_keyword (keywords_tbl AnythingLLMVAD_init) (lower raw) = Some (k, act) \<longrightarrow>
         listen_for_keywords (fst (listen_for_keywords a (Heard ''stop listening'') t0 r0)) (Heard raw) t r
           = (run_action act (fst (listen_for_keywords a (Heard ''stop listening'') t0 r0)\<lparr>last_speech_text := lower raw\<rparr>),
              [Executed act]))
    \<and> listening_mode (fst (listen_for_keywords (fst (listen_for_keywords a (Heard ''stop listening'') t0 r0))
          (Heard ''start listening'') t r)) = True
    \<and> (first_keyword (keywords_tbl AnythingLLMVAD_init) (lower raw) = None \<longrightarrow>
         listen_for_keywords (fst (listen_for_keywords a (Heard ''stop listening'') t0 r0)) (Heard raw) t r
           = (fst (listen_for_keywords a (Heard ''stop listening'') t0 r0)\<lparr>last_speech_text := lower raw\<rparr>, []))"
proof -
  define off where "off = fst (listen_for_keywords a (Heard ''stop listening'') t0 r0)"
  have tbl: "keywords_tbl off = keywords_tbl AnythingLLMVAD_init"
    unfolding off_def using assms by (simp add: listen_keeps_table)
  have stop: "first_keyword (keywords_tbl a) (lower ''stop listening'')
      = Some (''stop listening'', stop_listening)"
    using assms by (simp only: lower_stop init_stop)
  have c1: "listening_mode off = False"
    unfolding off_def by (simp add: listen_keyword[OF stop])
  have start: "first_keyword (keywords_tbl off) (lower ''start listening'')
      = Some (''start listening'', start_listening)"
    using tbl by (simp only: lower_start init_start)
  have c3: "listening_mode (fst (listen_for_keywords off (Heard ''start listening'') t r)) = True"
    by (simp add: listen_keyword[OF start])
  have c2: "first_keyword (keywords_tbl AnythingLLMVAD_init) (lower raw) = Some (k, act) \<longrightarrow>
      listen_for_keywords off (Heard raw) t r
        = (run_action act (off\<lparr>last_speech_text := lower raw\<rparr>), [Executed act])"
    using tbl by (simp add: listen_keyword)
  have c4: "first_keyword (keywords_tbl AnythingLLMVAD_init) (lower raw) = None \<longrightarrow>
      listen_for_keywords off (Heard raw) t r = (off\<lparr>last_speech_text := lower raw\<rparr>, [])"
    using tbl c1 by (simp add: listen_fallback)
  show ?thesis
    using c1 c2 c3 c4 unfolding off_def by blast
qed

theorem keywords_not_gated_by_listening_mode_witness:
  "listening_mode (fst (listen_for_keywords AnythingLLMVAD_init (Heard ''stop listening'') 50 Completed))
     = False
   \<and> snd (listen_for_keywords
        (fst (listen_for_keywords AnythingLLMVAD_init (Heard ''stop listening'') 50 Completed))
        (Heard ''please send this'') 100 Completed) = [Executed send_message]
   \<and> listening_mode (fst (listen_for_keywords
        (fst (listen_for_keywords AnythingLLMVAD_init (Heard ''stop listening'') 50 Completed))
        (Heard ''start listening'') 100 Completed)) = True
   \<and> snd (listen_for_keywords
        (fst (listen_for_keywords AnythingLLMVAD_init (Heard ''stop listening'') 50 Completed))
        (Heard ''Hello there'') 100 Completed) = []"
proof -
  have hit: "first_keyword (keywords_tbl AnythingLLMVAD_init) (lower ''please send this'')
      = Some (''send'', send_message)"
    by (simp only: lower_send init_send)
  have miss: "first_keyword (keywords_tbl AnythingLLMVAD_init) (lower ''Hello there'') = None"
    by (simp only: lower_hello init_hello)
  note cmd = keywords_not_gated_by_listening_mode[OF refl,
      where ?t0.0 = 50 and ?r0.0 = Completed and raw = "''please send this''"
        and k = "''send''" and act = send_message and t = 100 and r = Completed]
  note none = keywords_not_gated_by_listening_mode[OF refl,
      where ?t0.0 = 50 and ?r0.0 = Completed and raw = "''Hello there''"
        and k = "''send''" and act = send_message and t = 100 and r = Completed]
  show ?thesis
    using cmd none hit miss by simp
qed

section \<open>The flag \<open>currently_recording\<close>\<close>

lemma system_step_thread_mon: "mon (system_step s (Thread_done rc t r)) = mon s"
  by (cases "in_flight s") simp_all

lemma system_step_frame_mon:
  "mon (system_step s (Frame f c)) = fst (monitor_step (obj s) (mon s) (f, c))"
  by (simp split: prod.splits option.splits)

lemma system_step_frame_in_flight:
  "in_flight (system_step s (Frame f c)) =
     in_flight s @ (case snd (monitor_step (obj s) (mon s) (f, c)) of None \<Rightarrow> [] | Some seg \<Rightarrow> [seg])"
  by (simp split: prod.splits option.splits)

lemma busy_step:
  "currently_recording m \<Longrightarrow>
   snd (monitor_step a m (f, c)) = None \<and>
   currently_recording (fst (monitor_step a m (f, c)))
     = (c = None \<or> silence_frames (fst (monitor_step a m (f, c))) < silence_threshold a)"
  by (cases c) (auto simp: monitor_step_def check_segment_def count_frame_def Let_def)

lemma idle_step:
  "\<not> currently_recording m \<Longrightarrow>
   currently_recording (fst (monitor_step a m (f, c))) = (snd (monitor_step a m (f, c)) \<noteq> None)"
  by (cases c) (auto simp: monitor_step_def check_segment_def count_frame_def Let_def)

text \<open>The run of six speech frames and five silence frames, with its thread started.\<close>

lemma init_thresholds:
  "speaking_threshold AnythingLLMVAD_init = 6" "silence_threshold AnythingLLMVAD_init = 15"
  by (simp_all add: AnythingLLMVAD_init_def)

lemma dispatched:
  "system_run system_init
     [Frame (1::nat) (Some True), Frame 2 (Some True), Frame 3 (Some True), Frame 4 (Some True),
      Frame 5 (Some True), Frame 6 (Some True), Frame 7 (Some False), Frame 8 (Some False),
      Frame 9 (Some False), Frame 10 (Some False), Frame 11 (Some False)]
   = \<lparr> obj = AnythingLLMVAD_init,
       mon = \<lparr> speaking_frames = 0, silence_frames = 5, currently_recording = True,
               speech_frames = [] \<rparr>,
       in_flight = [[1, 2, 3, 4, 5, 6]] \<rparr>"
  by (simp add: system_run_def system_init_def monitor_init_def monitor_step_def
      check_segment_def count_frame_def init_thresholds)

text \<open>
  Claim C1 says that the flag is cleared exactly when the dispatched thread completes.
  The flag is a local variable of the loop, which the thread cannot reach. After six
  speech frames and five silence frames the segment is handed over and the flag is set;
  when the thread then finishes, the flag is still set. In the other direction, ten more
  silence frames clear the flag while the thread has not finished.
\<close>

theorem busy_cleared_on_completion_counterexample:
  "currently_recording (mon (system_run system_init
     [Frame (1::nat) (Some True), Frame 2 (Some True), Frame 3 (Some True), Frame 4 (Some True),
      Frame 5 (Some True), Frame 6 (Some True), Frame 7 (Some False), Frame 8 (Some False),
      Frame 9 (Some False), Frame 10 (Some False), Frame 11 (Some False),
      Thread_done (Heard ''please send this'') 100 Completed])) = True
   \<and> in_flight (system_run system_init
     [Frame (1::nat) (Some True), Frame 2 (Some True), Frame 3 (Some True), Frame 4 (Some True),
      Frame 5 (Some True), Frame 6 (Some True), Frame 7 (Some False), Frame 8 (Some False),
      Frame 9 (Some False), Frame 10 (Some False), Frame 11 (Some False),
      Thread_done (Heard ''please send this'') 100 Completed]) = []
   \<and> currently_recording (mon (system_run system_init
     [Frame (1::nat) (Some True), Frame 2 (Some True), Frame 3 (Some True), Frame 4 (Some True),
      Frame 5 (Some True), Frame 6 (Some True), Frame 7 (Some False), Frame 8 (Some False),
      Frame 9 (Some False), Frame 10 (Some False), Frame 11 (Some False),
      Frame 12 (Some False), Frame 13 (Some False), Frame 14 (Some False), Frame 15 (Some False),
      Frame 16 (Some False), Frame 17 (Some False), Frame 18 (Some False), Frame 19 (Some False),
      Frame 20 (Some False), Frame 21 (Some False)])) = False
   \<and> in_flight (system_run system_init
     [Frame (1::nat) (Some True), Frame 2 (Some True), Frame 3 (Some True), Frame 4 (Some True),
      Frame 5 (Some True), Frame 6 (Some True), Frame 7 (Some False), Frame 8 (Some False),
      Frame 9 (Some False), Frame 10 (Some False), Frame 11 (Some False),
      Frame 12 (Some False), Frame 13 (Some False), Frame 14 (Some False), Frame 15 (Some False),
      Frame 16 (Some False), Frame 17 (Some False), Frame 18 (Some False), Frame 19 (Some False),
      Frame 20 (Some False), Frame 21 (Some False)]) = [[1, 2, 3, 4, 5, 6]]"
  by (simp add: system_run_def system_init_def monitor_init_def monitor_step_def
      check_segment_def count_frame_def init_thresholds)

text \<open>
  Claim C1, amended: the end of a thread does not change the loop variables. While the
  flag is set no frame starts a thread, and the flag is cleared exactly by a classified
  frame that leaves \<open>silence_frames\<close> at \<open>silence_threshold\<close> or more. While the flag is
  not set, a frame sets it exactly when it starts a thread.
\<close>

theorem busy_flag_set_by_dispatch_cleared_by_silence:
  "mon (system_step s (Thread_done rc t r)) = mon s
   \<and> (currently_recording (mon s) \<longrightarrow>
        in_flight (system_step s (Frame f c)) = in_flight s
        \<and> currently_recording (mon (system_step s (Frame f c)))
            = (c = None \<or> silence_frames (mon (system_step s (Frame f c))) < silence_threshold (obj s)))
   \<and> (\<not> currently_recording (mon s) \<longrightarrow>
        currently_recording (mon (system_step s (Frame f c)))
          = (in_flight (system_step s (Frame f c)) \<noteq> in_flight s))"
proof (intro conjI impI)
  show "mon (system_step s (Thread_done rc t r)) = mon s"
    by (rule system_step_thread_mon)
next
  assume b: "currently_recording (mon s)"
  show "in_flight (system_step s (Frame f c)) = in_flight s"
    using busy_step[OF b, of "obj s" f c]
    by (simp add: system_step_frame_in_flight del: system_step.simps)
  show "currently_recording (mon (system_step s (Frame f c)))
            = (c = None \<or> silence_frames (mon (system_step s (Frame f c))) < silence_threshold (obj s))"
    using busy_step[OF b, of "obj s" f c] by (simp only: system_step_frame_mon)
next
  assume i: "\<not> currently_recording (mon s)"
  show "currently_recording (mon (system_step s (Frame f c)))
          = (in_flight (system_step s (Frame f c)) \<noteq> in_flight s)"
    using idle_step[OF i, of "obj s" f c]
    by (simp only: system_step_frame_mon system_step_frame_in_flight)
       (simp split: option.splits)
qed

theorem busy_flag_set_by_dispatch_cleared_by_silence_witness:
  "mon (system_step (system_run system_init
       [Frame (1::nat) (Some True), Frame 2 (Some True), Frame 3 (Some True), Frame 4 (Some True),
        Frame 5 (Some True), Frame 6 (Some True), Frame 7 (Some False), Frame 8 (Some False),
        Frame 9 (Some False), Frame 10 (Some False), Frame 11 (Some False)])
       (Thread_done (Heard ''please send this'') 100 Completed))
     = \<lparr> speaking_frames = 0, silence_frames = 5, currently_recording = True,
         speech_frames = [] \<rparr>
   \<and> in_flight (system_step (system_run system_init
       [Frame (1::nat) (Some True), Frame 2 (Some True), Frame 3 (Some True), Frame 4 (Some True),
        Frame 5 (Some True), Frame 6 (Some True), Frame 7 (Some False), Frame 8 (Some False),
        Frame 9 (Some False), Frame 10 (Some False), Frame 11 (Some False)])
       (Frame 12 (Some False))) = [[1, 2, 3, 4, 5, 6]]
   \<and> currently_recording (mon (system_step (system_run system_init
       [Frame (1::nat) (Some True), Frame 2 (Some True), Frame 3 (Some True), Frame 4 (Some True),
        Frame 5 (Some True), Frame 6 (Some True), Frame 7 (Some False), Frame 8 (Some False),
        Frame 9 (Some False), Frame 10 (Some False), Frame 11 (Some False)])
       (Frame 12 (Some False)))) = True
   \<and> currently_recording (mon (system_step system_init (Frame (1::nat) (Some True)))) = False"
proof -
  have idle: "\<not> currently_recording (mon (system_init :: nat system))"
    by (simp add: system_init_def monitor_init_def)
  have same: "in_flight (system_step system_init (Frame (1::nat) (Some True)))
      = in_flight (system_init :: nat system)"
    by (simp add: system_init_def monitor_init_def monitor_step_def check_segment_def
        count_frame_def init_thresholds)
  have six: "silence_frames (mon (system_step
       \<lparr> obj = AnythingLLMVAD_init,
         mon = \<lparr> speaking_frames = 0, silence_frames = 5, currently_recording = True,
                 speech_frames = [] \<rparr>,
         in_flight = [[1::nat, 2, 3, 4, 5, 6]] \<rparr> (Frame 12 (Some False))))
      < silence_threshold AnythingLLMVAD_init"
    by (simp add: monitor_step_def check_segment_def count_frame_def init_thresholds)
  note busy = busy_flag_set_by_dispatch_cleared_by_silence[
      where s = "system_run system_init
       [Frame (1::nat) (Some True), Frame 2 (Some True), Frame 3 (Some True), Frame 4 (Some True),
        Frame 5 (Some True), Frame 6 (Some True), Frame 7 (Some False), Frame 8 (Some False),
        Frame 9 (Some False), Frame 10 (Some False), Frame 11 (Some False)]"
      and rc = "Heard ''please send this''" and t = 100 and r = Completed
      and f = 12 and c = "Some False", unfolded dispatched]
  note fresh = busy_flag_set_by_dispatch_cleared_by_silence[
      where s = "system_init :: nat system"
      and rc = "Heard ''please send this''" and t = 100 and r = Completed
      and f = 1 and c = "Some True"]
  show ?thesis
    unfolding dispatched using busy fresh idle same six by simp
qed

end
